theory Spec2Isabelle
  imports Main "HOL-Library.Word"
begin

unbundle bit_operations_syntax

section \<open>Package meta of garfunkel/flac: metadata block headers and bodies\<close>

text \<open>
  The development embeds \<^verbatim>\<open>src/meta/meta.go\<close>: the block type constants and their
  names, \<^verbatim>\<open>ParseBlockHeader\<close>, \<^verbatim>\<open>NewBlock\<close>, \<^verbatim>\<open>Block.Parse\<close> and \<^verbatim>\<open>Block.Skip\<close>.
  Go's \<^verbatim>\<open>uint8\<close> is \<open>8 word\<close>, \<^verbatim>\<open>uint64\<close> is \<open>64 word\<close>; errors are values.
\<close>

subsection \<open>Block types (meta.go, lines 103 to 139)\<close>

type_synonym byte = "8 word"

text \<open>\<^verbatim>\<open>type BlockType uint8\<close>\<close>

type_synonym BlockType = "8 word"

text \<open>
  \<^verbatim>\<open>TypeStreamInfo BlockType = 1 << iota\<close> and the seven constants after it repeat the
  expression with \<^verbatim>\<open>iota\<close> = 0, 1, ..., 7.
\<close>

definition TypeStreamInfo :: BlockType where
  "TypeStreamInfo = push_bit 0 1"

definition TypePadding :: BlockType where
  "TypePadding = push_bit 1 1"

definition TypeApplication :: BlockType where
  "TypeApplication = push_bit 2 1"

definition TypeSeekTable :: BlockType where
  "TypeSeekTable = push_bit 3 1"

definition TypeVorbisComment :: BlockType where
  "TypeVorbisComment = push_bit 4 1"

definition TypeCueSheet :: BlockType where
  "TypeCueSheet = push_bit 5 1"

definition TypePicture :: BlockType where
  "TypePicture = push_bit 6 1"

definition TypeReserved :: BlockType where
  "TypeReserved = push_bit 7 1"

text \<open>The two bitmasks, as the source writes them.\<close>

definition TypeAll :: BlockType where
  "TypeAll = TypeStreamInfo OR TypeApplication OR TypeSeekTable OR TypeVorbisComment
     OR TypeCueSheet OR TypePicture OR TypeReserved"

definition TypeAllStrict :: BlockType where
  "TypeAllStrict = TypeStreamInfo OR TypePadding OR TypeApplication OR TypeSeekTable
     OR TypeVorbisComment OR TypeCueSheet OR TypePicture"

text \<open>The eight declared constants in declaration order.\<close>

definition declaredTypes :: "BlockType list" where
  "declaredTypes = [TypeStreamInfo, TypePadding, TypeApplication, TypeSeekTable,
     TypeVorbisComment, TypeCueSheet, TypePicture, TypeReserved]"

lemmas Type_defs = TypeStreamInfo_def TypePadding_def TypeApplication_def
  TypeSeekTable_def TypeVorbisComment_def TypeCueSheet_def TypePicture_def
  TypeReserved_def

text \<open>
  \<^verbatim>\<open>%d\<close> of \<^verbatim>\<open>fmt.Sprintf\<close> and \<^verbatim>\<open>log.Printf\<close> on an unsigned value: its decimal
  digits, most significant first, no padding.
\<close>

definition digit :: "nat \<Rightarrow> char" where
  "digit d = ''0123456789'' ! d"

fun decimal :: "nat \<Rightarrow> string" where
  "decimal n = (if n < 10 then [digit n] else decimal (n div 10) @ [digit (n mod 10)])"

declare decimal.simps [simp del]

text \<open>
  \<^verbatim>\<open>blockTypeName\<close>, a \<^verbatim>\<open>map[BlockType]string\<close> with seven entries; \<^verbatim>\<open>TypeReserved\<close>
  has none.
\<close>

definition blockTypeName :: "BlockType \<rightharpoonup> string" where
  "blockTypeName = map_of
     [(TypeStreamInfo, ''stream info''),
      (TypePadding, ''padding''),
      (TypeApplication, ''application''),
      (TypeSeekTable, ''seek table''),
      (TypeVorbisComment, ''vorbis comment''),
      (TypeCueSheet, ''cue sheet''),
      (TypePicture, ''picture'')]"

text \<open>\<^verbatim>\<open>func (t BlockType) String() string\<close>\<close>

definition String :: "BlockType \<Rightarrow> string" where
  "String t = (case blockTypeName t of
       Some s \<Rightarrow> s
     | None \<Rightarrow> ''unknown block type '' @ decimal (unat t))"

subsection \<open>The environment: streams, the bounded view, the bit-field extractor\<close>

text \<open>
  Errors an \<^verbatim>\<open>io.Reader\<close> or \<^verbatim>\<open>io.Seeker\<close> reports, and the errors of this package.
\<close>

datatype ioerr = EOF | ErrUnexpectedEOF | ErrNoProgress | ErrDevice | ErrNegativePosition

datatype error =
    IO ioerr
  | ErrInvalidBlockType
  | ErrNotSupported BlockType
  | ErrBody string

text \<open>
  The backing store behind the \<^verbatim>\<open>io.Reader\<close> a block is read from: its bytes, the
  cursor (absolute offset of the next byte to read), the error it reports once the
  cursor is at or past the last byte (\<open>EOF\<close> for a stream that simply ends, another
  error for a device that fails there), and whether its dynamic type also implements
  \<^verbatim>\<open>io.Seeker\<close>.
\<close>

record stream =
  content :: "byte list"
  cursor :: nat
  at_end :: ioerr
  seeker :: bool

text \<open>
  \<^verbatim>\<open>Read(p)\<close> with \<^verbatim>\<open>len(p) = n\<close>, as \<^verbatim>\<open>bytes.Reader\<close> and \<^verbatim>\<open>os.File\<close> do it: the
  available bytes, at most \<open>n\<close>, with no error; no byte and the final error at the end.
\<close>

definition stream_Read :: "nat \<Rightarrow> stream \<Rightarrow> (byte list \<times> ioerr option) \<times> stream" where
  "stream_Read n s =
     (if length (content s) \<le> cursor s then (([], Some (at_end s)), s)
      else (let bs = take n (drop (cursor s) (content s))
            in ((bs, None), s\<lparr>cursor := cursor s + length bs\<rparr>)))"

text \<open>
  \<^verbatim>\<open>Seek(offset, os.SEEK_CUR)\<close>, as \<^verbatim>\<open>bytes.Reader\<close> and \<^verbatim>\<open>os.File\<close> do it: only a
  negative resulting position is an error; a position past the last byte is accepted.
  The result is the new position and the error.
\<close>

definition stream_Seek_cur :: "int \<Rightarrow> stream \<Rightarrow> (int \<times> ioerr option) \<times> stream" where
  "stream_Seek_cur off s =
     (let p = int (cursor s) + off
      in if p < 0 then ((0, Some ErrNegativePosition), s)
         else ((p, None), s\<lparr>cursor := nat p\<rparr>))"

text \<open>
  \<^verbatim>\<open>io.LimitedReader\<close> of the Go library, the bounded view \<^verbatim>\<open>Block.Parse\<close> and
  \<^verbatim>\<open>io.CopyN\<close> build: \<^verbatim>\<open>R\<close> is the underlying reader, \<^verbatim>\<open>N\<close> the bytes remaining.
\<close>

record LimitedReader =
  lr_R :: stream
  lr_N :: int

definition io_LimitReader :: "stream \<Rightarrow> int \<Rightarrow> LimitedReader" where
  "io_LimitReader s n = \<lparr>lr_R = s, lr_N = n\<rparr>"

text \<open>
  \<^verbatim>\<open>
  func (l *LimitedReader) Read(p []byte) (n int, err error) {
      if l.N <= 0 { return 0, EOF }
      if int64(len(p)) > l.N { p = p[0:l.N] }
      n, err = l.R.Read(p)
      l.N -= int64(n)
      return
  }\<close>
\<close>

definition LimitedReader_Read ::
  "nat \<Rightarrow> LimitedReader \<Rightarrow> (byte list \<times> ioerr option) \<times> LimitedReader" where
  "LimitedReader_Read n l =
     (if lr_N l \<le> 0 then (([], Some EOF), l)
      else (let m = (if int n > lr_N l then nat (lr_N l) else n)
            in case stream_Read m (lr_R l) of
                 ((bs, err), s') \<Rightarrow>
                   ((bs, err), l\<lparr>lr_R := s', lr_N := lr_N l - int (length bs)\<rparr>)))"

text \<open>
  Modelled from the spec: the bit-field extractor, \<^verbatim>\<open>bit.Reader\<close> of
  \<^verbatim>\<open>github.com/eaburns/bit\<close>, an external collaborator. It yields one unsigned integer
  per requested width, most significant bit first, fields spanning byte boundaries, and
  fails with the I/O error of the stream when the stream ends before all requested bits
  are there. It takes one byte from the stream whenever a bit is asked for and none is
  pending, so widths summing to 32 consume exactly four bytes. \<open>pending\<close> holds the
  bits of the last byte that no field has taken yet, most significant first. A read
  that returns neither a byte nor an error does not happen with the streams above; the
  model reports \<open>ErrNoProgress\<close> for it.
\<close>

record bit_Reader =
  src :: stream
  pending :: "bool list"

definition bit_NewReader :: "stream \<Rightarrow> bit_Reader" where
  "bit_NewReader s = \<lparr>src = s, pending = []\<rparr>"

text \<open>\<open>bit_Read k acc br\<close>: \<open>k\<close> more bits appended to the \<^verbatim>\<open>uint64\<close> value \<open>acc\<close>.\<close>

fun bit_Read :: "nat \<Rightarrow> 64 word \<Rightarrow> bit_Reader \<Rightarrow> (ioerr + 64 word) \<times> bit_Reader" where
  "bit_Read 0 acc br = (Inr acc, br)"
| "bit_Read (Suc k) acc br =
     (case pending br of
        b # bs \<Rightarrow> bit_Read k (2 * acc + of_bool b) (br\<lparr>pending := bs\<rparr>)
      | [] \<Rightarrow>
          (case stream_Read 1 (src br) of
             ((x # _, _), s') \<Rightarrow>
               bit_Read k (2 * acc + of_bool (bit x 7))
                 (br\<lparr>src := s', pending := map (bit x) [6, 5, 4, 3, 2, 1, 0]\<rparr>)
           | (([], Some e), s') \<Rightarrow> (Inl e, br\<lparr>src := s'\<rparr>)
           | (([], None), s') \<Rightarrow> (Inl ErrNoProgress, br\<lparr>src := s'\<rparr>)))"

fun bit_ReadFields :: "nat list \<Rightarrow> bit_Reader \<Rightarrow> (ioerr + 64 word list) \<times> bit_Reader" where
  "bit_ReadFields [] br = (Inr [], br)"
| "bit_ReadFields (n # ns) br =
     (case bit_Read n 0 br of
        (Inl e, br') \<Rightarrow> (Inl e, br')
      | (Inr v, br') \<Rightarrow>
          (case bit_ReadFields ns br' of
             (Inl e, br'') \<Rightarrow> (Inl e, br'')
           | (Inr vs, br'') \<Rightarrow> (Inr (v # vs), br'')))"

subsection \<open>Block headers (meta.go, lines 141 to 220)\<close>

record BlockHeader =
  IsLast :: bool
  BlockType :: BlockType
  Length :: int

text \<open>The line \<^verbatim>\<open>log.Printf\<close> formats for a reserved type code.\<close>

definition reservedNotice :: "byte \<Rightarrow> string" where
  "reservedNotice c =
     ''meta.ParseBlockHeader: reserved block type '' @ decimal (unat c) @ ''.'' @ [CHR 0x0A]"

text \<open>
  \<^verbatim>\<open>ParseBlockHeader\<close>. The result is the header or the error, the reader after the
  call, and the lines handed to the process-wide logger. \<^verbatim>\<open>new(BlockHeader)\<close> is the
  zero header; \<open>flds\<close> is the slice \<^verbatim>\<open>fields\<close>; \<^verbatim>\<open>int(fields[2])\<close> is the signed reading of the \<^verbatim>\<open>uint64\<close> (a 64-bit
  \<^verbatim>\<open>int\<close>); \<^verbatim>\<open>uint8(blockType)\<close> keeps the low eight bits.
\<close>

definition ParseBlockHeader :: "stream \<Rightarrow> (error + BlockHeader) \<times> stream \<times> string list" where
  "ParseBlockHeader r =
     (case bit_ReadFields [1, 7, 24] (bit_NewReader r) of
        (Inl err, br) \<Rightarrow> (Inl (IO err), src br, [])
      | (Inr flds, br) \<Rightarrow>
          (let h = \<lparr>IsLast = False, BlockType = 0, Length = 0\<rparr>;
               h = (if flds ! 0 \<noteq> 0 then h\<lparr>IsLast := True\<rparr> else h);
               blockType = flds ! 1
           in case (if blockType = 0 then Inr (TypeStreamInfo, [])
                    else if blockType = 1 then Inr (TypePadding, [])
                    else if blockType = 2 then Inr (TypeApplication, [])
                    else if blockType = 3 then Inr (TypeSeekTable, [])
                    else if blockType = 4 then Inr (TypeVorbisComment, [])
                    else if blockType = 5 then Inr (TypeCueSheet, [])
                    else if blockType = 6 then Inr (TypePicture, [])
                    else if 7 \<le> blockType \<and> blockType \<le> 126
                      then Inr (TypeReserved, [reservedNotice (ucast blockType)])
                    else Inl ErrInvalidBlockType) of
                Inl err \<Rightarrow> (Inl err, src br, [])
              | Inr (t, notices) \<Rightarrow>
                  (Inr (h\<lparr>BlockType := t, Length := sint (flds ! 2)\<rparr>), src br, notices)))"

subsection \<open>Reading a bounded view to its end\<close>

text \<open>
  \<^verbatim>\<open>ioutil.ReadAll\<close> of the Go library on a bounded view: it reads chunk after chunk
  (at least 512 bytes of room each time) until the reader reports an error, and returns
  the bytes read so far; \<open>EOF\<close> is not reported as an error. Each round that returns
  no error has delivered at least one byte, so the remaining bound decreases.
\<close>

function ioutil_ReadAll ::
  "LimitedReader \<Rightarrow> byte list \<Rightarrow> (byte list \<times> ioerr option) \<times> LimitedReader" where
  "ioutil_ReadAll l buf =
     (case LimitedReader_Read 512 l of
        ((bs, None), l') \<Rightarrow> ioutil_ReadAll l' (buf @ bs)
      | ((bs, Some e), l') \<Rightarrow> ((buf @ bs, if e = EOF then None else Some e), l'))"
  by pat_completeness auto
termination
proof (relation "measure (\<lambda>(l, buf). nat (lr_N l))")
  show "wf (measure (\<lambda>(l, buf). nat (lr_N l)))" by simp
next
  fix l :: LimitedReader and buf :: "byte list" and x l' bs e
  assume "(x, l') = LimitedReader_Read 512 l" "(bs, e) = x" "e = None"
  then have "LimitedReader_Read 512 l = ((bs, None), l')" by simp
  then have "0 < lr_N l \<and> lr_N l' < lr_N l"
    by (auto simp: LimitedReader_Read_def stream_Read_def Let_def split: if_splits)
  then show "((l', buf @ bs), (l, buf)) \<in> measure (\<lambda>(l, buf). nat (lr_N l))"
    by simp
qed

declare ioutil_ReadAll.simps [simp del]

text \<open>
  \<^verbatim>\<open>io.Copy(ioutil.Discard, src)\<close> on a bounded view: the read loop with a buffer of
  32 KiB, the bytes counted and dropped (\<^verbatim>\<open>ioutil.Discard\<close> accepts every write).
\<close>

function io_Copy_Discard ::
  "LimitedReader \<Rightarrow> int \<Rightarrow> (int \<times> ioerr option) \<times> LimitedReader" where
  "io_Copy_Discard l written =
     (case LimitedReader_Read 32768 l of
        ((bs, None), l') \<Rightarrow> io_Copy_Discard l' (written + int (length bs))
      | ((bs, Some e), l') \<Rightarrow>
          ((written + int (length bs), if e = EOF then None else Some e), l'))"
  by pat_completeness auto
termination
proof (relation "measure (\<lambda>(l, written). nat (lr_N l))")
  show "wf (measure (\<lambda>(l, written). nat (lr_N l)))" by simp
next
  fix l :: LimitedReader and written :: int and x l' bs e
  assume "(x, l') = LimitedReader_Read 32768 l" "(bs, e) = x" "e = None"
  then have "LimitedReader_Read 32768 l = ((bs, None), l')" by simp
  then have "0 < lr_N l \<and> lr_N l' < lr_N l"
    by (auto simp: LimitedReader_Read_def stream_Read_def Let_def split: if_splits)
  then show "((l', written + int (length bs)), (l, written))
      \<in> measure (\<lambda>(l, written). nat (lr_N l))"
    by simp
qed

declare io_Copy_Discard.simps [simp del]

text \<open>
  \<^verbatim>\<open>
  func CopyN(dst Writer, src Reader, n int64) (written int64, err error) {
      written, err = Copy(dst, LimitReader(src, n))
      if written == n { return n, nil }
      if written < n && err == nil { err = EOF }
      return
  }\<close>
\<close>

definition io_CopyN_Discard :: "stream \<Rightarrow> int \<Rightarrow> (int \<times> ioerr option) \<times> stream" where
  "io_CopyN_Discard s n =
     (case io_Copy_Discard (io_LimitReader s n) 0 of
        ((written, err), l') \<Rightarrow>
          if written = n then ((n, None), lr_R l')
          else if written < n \<and> err = None then ((written, Some EOF), lr_R l')
          else ((written, err), lr_R l'))"

subsection \<open>Blocks (meta.go, lines 15 to 101)\<close>

text \<open>
  The body decoders \<^verbatim>\<open>ParseStreamInfo\<close>, \<^verbatim>\<open>VerifyPadding\<close>, \<^verbatim>\<open>ParseApplication\<close>,
  \<^verbatim>\<open>ParseSeekTable\<close>, \<^verbatim>\<open>ParseVorbisComment\<close>, \<^verbatim>\<open>ParseCueSheet\<close> and \<^verbatim>\<open>ParsePicture\<close> live
  in other files of the package. Each is handed one \<^verbatim>\<open>io.Reader\<close> and nothing else, so
  a decoder is taken as a parameter: any program that asks its reader for up to \<open>n\<close>
  bytes, looks at what came back, and goes on, until it returns. \<open>ReadThen n k\<close> calls
  \<^verbatim>\<open>Read\<close> with a buffer of \<open>n\<close> bytes and continues as \<open>k\<close> of the outcome;
  \<open>Result a\<close> returns \<open>a\<close>. A decoder that never returns is not in this type.
\<close>

datatype 'a decoder = Result 'a | ReadThen nat "byte list \<times> ioerr option \<Rightarrow> 'a decoder"

text \<open>Running a decoder on the bounded view it is handed.\<close>

primrec decode :: "'a decoder \<Rightarrow> LimitedReader \<Rightarrow> 'a \<times> LimitedReader" where
  "decode (Result a) l = (a, l)"
| "decode (ReadThen n k) l =
     (case LimitedReader_Read n l of (res, l') \<Rightarrow> decode (k res) l')"

text \<open>The decoders of the package; \<open>'b\<close> stands for the typed bodies they return.\<close>

record 'b decoders =
  ParseStreamInfo :: "('b \<times> error option) decoder"
  VerifyPadding :: "error option decoder"
  ParseApplication :: "('b \<times> error option) decoder"
  ParseSeekTable :: "('b \<times> error option) decoder"
  ParseVorbisComment :: "('b \<times> error option) decoder"
  ParseCueSheet :: "('b \<times> error option) decoder"
  ParsePicture :: "('b \<times> error option) decoder"

text \<open>
  \<^verbatim>\<open>Body interface{}\<close>: nothing yet, a typed body, or the raw bytes of a reserved block.
\<close>

datatype 'b body = NoBody | Typed 'b | RawBytes "byte list"

text \<open>\<^verbatim>\<open>type Block struct\<close>; \<open>reader\<close> is its field \<^verbatim>\<open>r\<close>.\<close>

record 'b Block =
  reader :: stream
  Header :: BlockHeader
  Body :: "'b body"

text \<open>The branches of the \<^verbatim>\<open>switch block.Header.BlockType\<close> in \<^verbatim>\<open>Block.Parse\<close>.\<close>

datatype branch =
    CaseStreamInfo | CasePadding | CaseApplication | CaseSeekTable
  | CaseVorbisComment | CaseCueSheet | CasePicture | CaseReserved | CaseDefault

text \<open>The first \<^verbatim>\<open>case\<close> whose constant equals the value is taken, else \<^verbatim>\<open>default\<close>.\<close>

definition dispatch :: "BlockType \<Rightarrow> branch" where
  "dispatch t =
     (if t = TypeStreamInfo then CaseStreamInfo
      else if t = TypePadding then CasePadding
      else if t = TypeApplication then CaseApplication
      else if t = TypeSeekTable then CaseSeekTable
      else if t = TypeVorbisComment then CaseVorbisComment
      else if t = TypeCueSheet then CaseCueSheet
      else if t = TypePicture then CasePicture
      else if t = TypeReserved then CaseReserved
      else CaseDefault)"

text \<open>
  \<^verbatim>\<open>Block.Parse\<close>: the error returned and the block afterwards (its reader advanced,
  its body assigned). A decoder's result is assigned to \<^verbatim>\<open>block.Body\<close> before the
  error is looked at.
\<close>

definition typedBody ::
  "'b Block \<Rightarrow> ('b \<times> error option) \<times> LimitedReader \<Rightarrow> error option \<times> 'b Block" where
  "typedBody block res =
     (case res of ((b, err), l') \<Rightarrow> (err, block\<lparr>reader := lr_R l', Body := Typed b\<rparr>))"

definition Parse :: "'b decoders \<Rightarrow> 'b Block \<Rightarrow> error option \<times> 'b Block" where
  "Parse ds block =
     (let lr = io_LimitReader (reader block) (Length (Header block))
      in case dispatch (BlockType (Header block)) of
           CaseStreamInfo \<Rightarrow> typedBody block (decode (ParseStreamInfo ds) lr)
         | CasePadding \<Rightarrow>
             (case decode (VerifyPadding ds) lr of
                (err, l') \<Rightarrow> (err, block\<lparr>reader := lr_R l'\<rparr>))
         | CaseApplication \<Rightarrow> typedBody block (decode (ParseApplication ds) lr)
         | CaseSeekTable \<Rightarrow> typedBody block (decode (ParseSeekTable ds) lr)
         | CaseVorbisComment \<Rightarrow> typedBody block (decode (ParseVorbisComment ds) lr)
         | CaseCueSheet \<Rightarrow> typedBody block (decode (ParseCueSheet ds) lr)
         | CasePicture \<Rightarrow> typedBody block (decode (ParsePicture ds) lr)
         | CaseReserved \<Rightarrow>
             (case ioutil_ReadAll lr [] of
                ((bs, err), l') \<Rightarrow>
                  (map_option IO err, block\<lparr>reader := lr_R l', Body := RawBytes bs\<rparr>))
         | CaseDefault \<Rightarrow> (Some (ErrNotSupported (BlockType (Header block))), block))"

text \<open>
  \<^verbatim>\<open>Block.Skip\<close>: a relative seek when the reader is an \<^verbatim>\<open>io.Seeker\<close>, else
  \<^verbatim>\<open>io.CopyN\<close> into \<^verbatim>\<open>ioutil.Discard\<close>.
\<close>

definition Skip :: "'b Block \<Rightarrow> error option \<times> 'b Block" where
  "Skip block =
     (if seeker (reader block)
      then (case stream_Seek_cur (Length (Header block)) (reader block) of
              ((_, err), s') \<Rightarrow> (map_option IO err, block\<lparr>reader := s'\<rparr>))
      else (case io_CopyN_Discard (reader block) (Length (Header block)) of
              ((_, err), s') \<Rightarrow> (map_option IO err, block\<lparr>reader := s'\<rparr>)))"

text \<open>\<^verbatim>\<open>NewBlock\<close>: the block, or the error of the header; and the reader and the log.\<close>

definition NewBlock :: "stream \<Rightarrow> (error + 'b Block) \<times> stream \<times> string list" where
  "NewBlock r =
     (case ParseBlockHeader r of
        (Inl err, r', notices) \<Rightarrow> (Inl err, r', notices)
      | (Inr h, r', notices) \<Rightarrow>
          (Inr \<lparr>reader = r', Header = h, Body = NoBody\<rparr>, r', notices))"

text \<open>\<^verbatim>\<open>ParseBlock\<close>: \<^verbatim>\<open>NewBlock\<close>, then \<^verbatim>\<open>Block.Parse\<close>.\<close>

definition ParseBlock ::
  "'b decoders \<Rightarrow> stream \<Rightarrow> (error + 'b Block) \<times> stream \<times> string list" where
  "ParseBlock ds r =
     (case NewBlock r of
        (Inl err, r', notices) \<Rightarrow> (Inl err, r', notices)
      | (Inr block, r', notices) \<Rightarrow>
          (case Parse ds block of
             (Some err, block') \<Rightarrow> (Inl err, reader block', notices)
           | (None, block') \<Rightarrow> (Inr block', reader block', notices)))"

subsection \<open>The header layout\<close>

text \<open>
  The four bytes of a header as section 6 of the specification lays them out: bit 0 is
  the flag, bits 1 to 7 the type code \<open>c\<close>, bits 8 to 31 the length \<open>L\<close>, most
  significant bit first.
\<close>

definition packHeader :: "bool \<Rightarrow> nat \<Rightarrow> nat \<Rightarrow> byte list" where
  "packHeader isLast c L =
     [of_nat (128 * of_bool isLast + c), of_nat (L div 65536), of_nat (L div 256 mod 256),
      of_nat (L mod 256)]"

subsection \<open>Vocabulary of the properties\<close>


text \<open>
  \<open>advanced l l'\<close>: the bounded view \<open>l'\<close> is \<open>l\<close> after some reads: the same backing
  store, the cursor moved forward, and by no more than the bound of \<open>l\<close> allowed.
\<close>

definition advanced :: "LimitedReader \<Rightarrow> LimitedReader \<Rightarrow> bool" where
  "advanced l l' =
     (content (lr_R l') = content (lr_R l) \<and> at_end (lr_R l') = at_end (lr_R l)
      \<and> seeker (lr_R l') = seeker (lr_R l)
      \<and> cursor (lr_R l) \<le> cursor (lr_R l')
      \<and> int (cursor (lr_R l')) + max 0 (lr_N l') \<le> int (cursor (lr_R l)) + max 0 (lr_N l))"

text \<open>
  An example of a body decoder that does not respect the length of its block: it asks
  for 100 bytes, then for 100 more, and returns what it got and the error of the second
  read. \<open>greedyDecoders\<close> uses it for every typed body.
\<close>

definition greedyDecoder :: "(byte list \<times> error option) decoder" where
  "greedyDecoder =
     ReadThen 100 (\<lambda>r1. ReadThen 100 (\<lambda>r2.
       Result (fst r1 @ fst r2, map_option IO (snd r2))))"

definition greedyDecoders :: "(byte list) decoders" where
  "greedyDecoders =
     \<lparr>ParseStreamInfo = greedyDecoder, VerifyPadding = Result None,
      ParseApplication = greedyDecoder, ParseSeekTable = greedyDecoder,
      ParseVorbisComment = greedyDecoder, ParseCueSheet = greedyDecoder,
      ParsePicture = greedyDecoder\<rparr>"

section \<open>Properties\<close>

subsection \<open>Block types and their names\<close>

text \<open>
  Claim C8: the eight block type constants are the powers of two \<open>2^0\<close> to \<open>2^7\<close>, hence
  pairwise distinct; \<^verbatim>\<open>TypeAll\<close> is the bitwise or of every constant but
  \<^verbatim>\<open>TypePadding\<close>, \<^verbatim>\<open>TypeAllStrict\<close> of every constant but \<^verbatim>\<open>TypeReserved\<close>; so the
  constants whose bit is set in \<^verbatim>\<open>TypeAll\<close> are all but padding, and those whose bit is
  set in \<^verbatim>\<open>TypeAllStrict\<close> are all but reserved.
\<close>

theorem blockType_bitmasks:
  "declaredTypes = map (\<lambda>i. 2 ^ i) [0, 1, 2, 3, 4, 5, 6, 7]
   \<and> distinct declaredTypes
   \<and> TypeAll = TypeStreamInfo OR TypeApplication OR TypeSeekTable OR TypeVorbisComment
        OR TypeCueSheet OR TypePicture OR TypeReserved
   \<and> TypeAllStrict = TypeStreamInfo OR TypePadding OR TypeApplication OR TypeSeekTable
        OR TypeVorbisComment OR TypeCueSheet OR TypePicture
   \<and> filter (\<lambda>t. TypeAll AND t \<noteq> 0) declaredTypes =
        [TypeStreamInfo, TypeApplication, TypeSeekTable, TypeVorbisComment, TypeCueSheet,
         TypePicture, TypeReserved]
   \<and> filter (\<lambda>t. TypeAllStrict AND t \<noteq> 0) declaredTypes =
        [TypeStreamInfo, TypePadding, TypeApplication, TypeSeekTable, TypeVorbisComment,
         TypeCueSheet, TypePicture]
   \<and> TypeAll = 253 \<and> TypeAllStrict = 127"
  by (simp add: declaredTypes_def TypeAll_def TypeAllStrict_def Type_defs)

text \<open>
  Claim C10: \<^verbatim>\<open>BlockType.String\<close> returns a name for every value: each of the seven
  concrete types renders as its own name; \<^verbatim>\<open>TypeReserved\<close>, which has no entry in the
  table, renders as \<open>unknown block type 128\<close>; and every value outside the seven
  renders as \<open>unknown block type N\<close> with \<open>N\<close> its decimal value.
\<close>

theorem String_names:
  "String TypeStreamInfo = ''stream info''
   \<and> String TypePadding = ''padding''
   \<and> String TypeApplication = ''application''
   \<and> String TypeSeekTable = ''seek table''
   \<and> String TypeVorbisComment = ''vorbis comment''
   \<and> String TypeCueSheet = ''cue sheet''
   \<and> String TypePicture = ''picture''
   \<and> String TypeReserved = ''unknown block type 128''
   \<and> (t \<notin> {TypeStreamInfo, TypePadding, TypeApplication, TypeSeekTable,
            TypeVorbisComment, TypeCueSheet, TypePicture}
        \<longrightarrow> String t = ''unknown block type '' @ decimal (unat t))"
  by (simp add: String_def blockTypeName_def Type_defs decimal.simps digit_def)

theorem String_names_witness:
  "(3 :: BlockType) \<notin> {TypeStreamInfo, TypePadding, TypeApplication, TypeSeekTable,
            TypeVorbisComment, TypeCueSheet, TypePicture}
   \<and> String 3 = ''unknown block type 3''"
  using String_names [of 3] by (simp add: Type_defs decimal.simps digit_def)

subsection \<open>The bit-field extractor on a header\<close>

text \<open>A byte is the Horner sum of its bits.\<close>

lemma unat_byte_bits:
  fixes x :: byte
  shows "unat x =
     of_bool (bit x 0) + 2 * (of_bool (bit x 1) + 2 * (of_bool (bit x 2) + 2 * (of_bool (bit x 3)
      + 2 * (of_bool (bit x 4) + 2 * (of_bool (bit x 5) + 2 * (of_bool (bit x 6)
      + 2 * of_bool (bit x 7)))))))"
proof -
  have "horner_sum of_bool 2 (map (bit (unat x)) [0..<8]) = take_bit 8 (unat x)"
    by (rule horner_sum_bit_eq_take_bit)
  moreover have "take_bit 8 x = x"
    using take_bit_length_eq [of x] by simp
  then have "take_bit 8 (unat x) = unat x"
    by (simp add: unsigned_take_bit_eq [symmetric])
  moreover have "[0..<8] = [0, 1, 2, 3, 4, 5, 6, 7 :: nat]"
    by (simp add: upt_conv_Cons)
  ultimately show ?thesis
    by (simp add: bit_simps)
qed

lemma stream_Read_1:
  "cursor s < length (content s) \<Longrightarrow>
   stream_Read 1 s = (([content s ! cursor s], None), s\<lparr>cursor := Suc (cursor s)\<rparr>)"
  by (simp add: stream_Read_def Let_def take_Suc_conv_app_nth hd_drop_conv_nth take_Suc)

lemma stream_Read_end:
  "length (content s) \<le> cursor s \<Longrightarrow> stream_Read n s = (([], Some (at_end s)), s)"
  by (simp add: stream_Read_def)

lemma bit_Read_add:
  "bit_Read (m + n) acc br =
     (case bit_Read m acc br of
        (Inl e, br') \<Rightarrow> (Inl e, br')
      | (Inr v, br') \<Rightarrow> bit_Read n v br')"
proof (induction m arbitrary: acc br)
  case 0
  then show ?case by simp
next
  case (Suc m)
  then show ?case
    by (simp split: list.splits prod.splits option.splits)
qed

lemma horner_byte:
  fixes acc :: "64 word" and x :: byte
  shows "2 * (2 * (2 * (2 * (2 * (2 * (2 * (2 * acc + of_bool (bit x 7)) + of_bool (bit x 6))
      + of_bool (bit x 5)) + of_bool (bit x 4)) + of_bool (bit x 3)) + of_bool (bit x 2))
      + of_bool (bit x 1)) + of_bool (bit x 0) = 256 * acc + of_nat (unat x)"
  by (subst unat_byte_bits) (simp only: of_nat_add of_nat_mult of_nat_of_bool of_nat_numeral distrib_left mult.assoc [symmetric] numeral_times_numeral semiring_norm add.assoc add.commute add.left_commute)

lemma bit_Read_byte:
  assumes "pending br = []" and "cursor (src br) < length (content (src br))"
  shows "bit_Read 8 acc br =
     (Inr (256 * acc + of_nat (unat (content (src br) ! cursor (src br)))),
      br\<lparr>src := (src br)\<lparr>cursor := Suc (cursor (src br))\<rparr>, pending := []\<rparr>)"
proof -
  define x where "x = content (src br) ! cursor (src br)"
  have 8: "(8::nat) = Suc (Suc (Suc (Suc (Suc (Suc (Suc (Suc 0)))))))" by simp
  have "bit_Read 8 acc br =
     (Inr (2 * (2 * (2 * (2 * (2 * (2 * (2 * (2 * acc + of_bool (bit x 7)) + of_bool (bit x 6))
      + of_bool (bit x 5)) + of_bool (bit x 4)) + of_bool (bit x 3)) + of_bool (bit x 2))
      + of_bool (bit x 1)) + of_bool (bit x 0)),
      br\<lparr>src := (src br)\<lparr>cursor := Suc (cursor (src br))\<rparr>, pending := []\<rparr>)"
    unfolding 8 using assms
    by (simp add: stream_Read_1 [simplified] x_def [symmetric] split del: split_of_bool)
  then show ?thesis
    by (simp only: horner_byte x_def)
qed

lemma horner_low7:
  fixes x :: byte
  shows "2 * (2 * (2 * (2 * (2 * (2 * (2 * 0 + of_bool (bit x 6))
      + of_bool (bit x 5)) + of_bool (bit x 4)) + of_bool (bit x 3)) + of_bool (bit x 2))
      + of_bool (bit x 1)) + of_bool (bit x 0) = (of_nat (unat x mod 128) :: 64 word)"
proof -
  have "unat x mod 128 = of_bool (bit x 0) + 2 * (of_bool (bit x 1) + 2 * (of_bool (bit x 2) + 2 * (of_bool (bit x 3)
      + 2 * (of_bool (bit x 4) + 2 * (of_bool (bit x 5) + 2 * (of_bool (bit x 6)))))))"
    by (subst unat_byte_bits) (simp split del: split_of_bool, simp)
  then show ?thesis
   by (simp only: of_nat_add of_nat_mult of_nat_of_bool of_nat_numeral distrib_left mult.assoc [symmetric] numeral_times_numeral semiring_norm add.assoc add.commute add.left_commute mult_zero_right add_0_left add_0_right)
qed

lemma top_bit:
  fixes x :: byte
  shows "of_bool (bit x 7) = unat x div 128"
  by (subst unat_byte_bits) simp


lemma bit_Read_flag:
  assumes "cursor s < length (content s)"
  shows "bit_Read 1 0 (bit_NewReader s) =
     (Inr (of_nat (unat (content s ! cursor s) div 128)),
      \<lparr>src = s\<lparr>cursor := Suc (cursor s)\<rparr>,
       pending = map (bit (content s ! cursor s)) [6, 5, 4, 3, 2, 1, 0]\<rparr>)"
  using assms
  by (simp add: bit_NewReader_def stream_Read_1 [simplified] top_bit [symmetric]
      split del: split_of_bool)

lemma bit_Read_type:
  fixes x :: byte
  shows "bit_Read 7 0 \<lparr>src = s', pending = map (bit x) [6, 5, 4, 3, 2, 1, 0]\<rparr> =
     (Inr (of_nat (unat x mod 128)), \<lparr>src = s', pending = []\<rparr>)"
proof -
  have 7: "(7::nat) = Suc (Suc (Suc (Suc (Suc (Suc (Suc 0))))))" by simp
  have "bit_Read 7 0 \<lparr>src = s', pending = map (bit x) [6, 5, 4, 3, 2, 1, 0]\<rparr> =
     (Inr (2 * (2 * (2 * (2 * (2 * (2 * (2 * 0 + of_bool (bit x 6))
      + of_bool (bit x 5)) + of_bool (bit x 4)) + of_bool (bit x 3)) + of_bool (bit x 2))
      + of_bool (bit x 1)) + of_bool (bit x 0)), \<lparr>src = s', pending = []\<rparr>)"
    unfolding 7 by (simp split del: split_of_bool)
  then show ?thesis
    by (simp only: horner_low7)
qed

lemma bit_Read_length:
  assumes "cursor s + 3 \<le> length (content s)"
  shows "bit_Read 24 0 \<lparr>src = s, pending = []\<rparr> =
     (Inr (of_nat (unat (content s ! cursor s) * 65536 + unat (content s ! (cursor s + 1)) * 256
             + unat (content s ! (cursor s + 2)))),
      \<lparr>src = s\<lparr>cursor := cursor s + 3\<rparr>, pending = []\<rparr>)"
proof -
  let ?b0 = "unat (content s ! cursor s)"
  let ?b1 = "unat (content s ! (cursor s + 1))"
  let ?b2 = "unat (content s ! (cursor s + 2))"
  have s1: "bit_Read 8 0 \<lparr>src = s, pending = []\<rparr> =
      (Inr (of_nat ?b0), \<lparr>src = s\<lparr>cursor := cursor s + 1\<rparr>, pending = []\<rparr>)"
    using assms bit_Read_byte [of "\<lparr>src = s, pending = []\<rparr>" 0] by simp
  have s2: "bit_Read 8 (of_nat ?b0) \<lparr>src = s\<lparr>cursor := cursor s + 1\<rparr>, pending = []\<rparr> =
      (Inr (of_nat (?b0 * 256 + ?b1)), \<lparr>src = s\<lparr>cursor := cursor s + 2\<rparr>, pending = []\<rparr>)"
    using assms
      bit_Read_byte [of "\<lparr>src = s\<lparr>cursor := cursor s + 1\<rparr>, pending = []\<rparr>" "of_nat ?b0"]
    by (simp del: of_nat_unat)
  have s3: "bit_Read 8 (of_nat (?b0 * 256 + ?b1))
        \<lparr>src = s\<lparr>cursor := cursor s + 2\<rparr>, pending = []\<rparr> =
      (Inr (of_nat (?b0 * 65536 + ?b1 * 256 + ?b2)),
       \<lparr>src = s\<lparr>cursor := cursor s + 3\<rparr>, pending = []\<rparr>)"
    using assms
      bit_Read_byte [of "\<lparr>src = s\<lparr>cursor := cursor s + 2\<rparr>, pending = []\<rparr>"
        "of_nat (?b0 * 256 + ?b1)"]
    by (simp del: of_nat_unat add: algebra_simps)
  have "bit_Read (8 + (8 + 8)) 0 \<lparr>src = s, pending = []\<rparr> =
      (Inr (of_nat (?b0 * 65536 + ?b1 * 256 + ?b2)),
       \<lparr>src = s\<lparr>cursor := cursor s + 3\<rparr>, pending = []\<rparr>)"
    by (simp only: bit_Read_add s1 s2 s3 prod.case sum.case)
  then show ?thesis by simp
qed

lemma ReadFields_header:
  assumes "cursor s + 4 \<le> length (content s)"
  shows "bit_ReadFields [1, 7, 24] (bit_NewReader s) =
     (Inr [of_nat (unat (content s ! cursor s) div 128),
           of_nat (unat (content s ! cursor s) mod 128),
           of_nat (unat (content s ! (cursor s + 1)) * 65536
                   + unat (content s ! (cursor s + 2)) * 256
                   + unat (content s ! (cursor s + 3)))],
      \<lparr>src = s\<lparr>cursor := cursor s + 4\<rparr>, pending = []\<rparr>)"
proof -
  have f: "bit_Read 1 0 (bit_NewReader s) =
     (Inr (of_nat (unat (content s ! cursor s) div 128)),
      \<lparr>src = s\<lparr>cursor := Suc (cursor s)\<rparr>,
       pending = map (bit (content s ! cursor s)) [6, 5, 4, 3, 2, 1, 0]\<rparr>)"
    using assms by (intro bit_Read_flag) simp
  have l: "bit_Read 24 0 \<lparr>src = s\<lparr>cursor := Suc (cursor s)\<rparr>, pending = []\<rparr> =
     (Inr (of_nat (unat (content s ! (cursor s + 1)) * 65536
                   + unat (content s ! (cursor s + 2)) * 256
                   + unat (content s ! (cursor s + 3)))),
      \<lparr>src = s\<lparr>cursor := cursor s + 4\<rparr>, pending = []\<rparr>)"
    using assms bit_Read_length [of "s\<lparr>cursor := Suc (cursor s)\<rparr>"]
    by (simp del: of_nat_unat add: numeral_3_eq_3)
  show ?thesis
    by (simp only: bit_ReadFields.simps f l bit_Read_type prod.case sum.case)
qed


lemma code_tests:
  assumes "c < 128"
  shows "((of_nat c :: 64 word) = 0) = (c = 0)"
    and "((of_nat c :: 64 word) = 1) = (c = 1)"
    and "((of_nat c :: 64 word) = 2) = (c = 2)"
    and "((of_nat c :: 64 word) = 3) = (c = 3)"
    and "((of_nat c :: 64 word) = 4) = (c = 4)"
    and "((of_nat c :: 64 word) = 5) = (c = 5)"
    and "((of_nat c :: 64 word) = 6) = (c = 6)"
    and "(7 \<le> (of_nat c :: 64 word)) = (7 \<le> c)"
    and "((of_nat c :: 64 word) \<le> 126) = (c \<le> 126)"
  using assms
  by (simp_all add: word_unat_eq_iff word_le_nat_alt unat_of_nat del: of_nat_unat)

lemma code_uint8:
  assumes "c < 128"
  shows "(ucast (of_nat c :: 64 word) :: byte) = of_nat c"
proof -
  have "c < 2 ^ 64" using assms by simp
  then show ?thesis
    by (simp add: unsigned_of_nat take_bit_nat_eq_self)
qed

lemma sint_length:
  assumes "L < 2 ^ 24"
  shows "sint (of_nat L :: 64 word) = int L"
proof -
  have "- (2 ^ 63) \<le> int L" "int L < 2 ^ 63" using assms by simp_all
  then show ?thesis
    by (simp add: signed_of_nat signed_take_bit_int_eq_self)
qed


lemma declaredTypes_nth:
  "declaredTypes ! 0 = TypeStreamInfo" "declaredTypes ! 1 = TypePadding"
  "declaredTypes ! Suc 0 = TypePadding"
  "declaredTypes ! 2 = TypeApplication" "declaredTypes ! 3 = TypeSeekTable"
  "declaredTypes ! 4 = TypeVorbisComment" "declaredTypes ! 5 = TypeCueSheet"
  "declaredTypes ! 6 = TypePicture" "declaredTypes ! 7 = TypeReserved"
  by (simp_all add: declaredTypes_def)

lemma small_code_cases:
  "(c::nat) \<le> 6 \<Longrightarrow> c = 0 \<or> c = 1 \<or> c = 2 \<or> c = 3 \<or> c = 4 \<or> c = 5 \<or> c = 6"
  by arith

lemma ParseBlockHeader_readable:
  assumes avail: "cursor s + 4 \<le> length (content s)"
    and b0: "b0 = unat (content s ! cursor s)"
    and L: "L = unat (content s ! (cursor s + 1)) * 65536
              + unat (content s ! (cursor s + 2)) * 256
              + unat (content s ! (cursor s + 3))"
  shows "ParseBlockHeader s =
    (if b0 mod 128 = 127 then (Inl ErrInvalidBlockType, s\<lparr>cursor := cursor s + 4\<rparr>, [])
     else (Inr \<lparr>IsLast = (128 \<le> b0),
                BlockType = (if b0 mod 128 \<le> 6 then declaredTypes ! (b0 mod 128)
                             else TypeReserved),
                Length = int L\<rparr>,
           s\<lparr>cursor := cursor s + 4\<rparr>,
           if 7 \<le> b0 mod 128 then [reservedNotice (of_nat (b0 mod 128))] else []))"
proof -
  define c where "c = b0 mod 128"
  define f where "f = b0 div 128"
  have c: "c < 128" by (simp add: c_def)
  have byte_bound: "unat x < 256" for x :: byte
    using unsigned_less [of x, where ?'a = nat] by simp
  have "b0 < 256" using byte_bound by (simp add: b0)
  then have f: "f < 128" "(f \<noteq> 0) = (128 \<le> b0)" by (auto simp: f_def)
  have "unat (content s ! (cursor s + 1)) < 256"
       "unat (content s ! (cursor s + 2)) < 256"
       "unat (content s ! (cursor s + 3)) < 256"
    by (rule byte_bound)+
  then have Lb: "L < 2 ^ 24" by (simp add: L)
  have fields: "bit_ReadFields [1, 7, 24] (bit_NewReader s) =
     (Inr [of_nat f, of_nat c, of_nat L], \<lparr>src = s\<lparr>cursor := cursor s + 4\<rparr>, pending = []\<rparr>)"
    using ReadFields_header [OF avail] by (simp only: f_def c_def b0 L)
  have flag: "((of_nat f :: 64 word) \<noteq> 0) = (128 \<le> b0)"
    using code_tests(1) [OF f(1)] f(2) by simp
  consider "c \<le> 6" | "7 \<le> c" "c \<le> 126" | "c = 127" using c by linarith
  then show ?thesis
  proof cases
    case 1
    then have "c = 0 \<or> c = 1 \<or> c = 2 \<or> c = 3 \<or> c = 4 \<or> c = 5 \<or> c = 6"
      by (rule small_code_cases)
    then show ?thesis
      unfolding ParseBlockHeader_def fields c_def [symmetric]
      by (auto simp: flag sint_length [OF Lb] declaredTypes_nth Let_def simp del: of_nat_unat)
  next
    case 2
    then show ?thesis
      unfolding ParseBlockHeader_def fields c_def [symmetric]
      by (simp add: flag code_tests [OF c] code_uint8 [OF c] sint_length [OF Lb] Let_def
          del: of_nat_unat)
  next
    case 3
    then show ?thesis
      unfolding ParseBlockHeader_def fields c_def [symmetric]
      by (simp add: Let_def)
  qed
qed

text \<open>The same on a stream whose next four bytes pack a flag, a code and a length.\<close>

lemma window_nth:
  assumes "take 4 (drop k xs) = [x0, x1, x2, x3]"
  shows "k + 4 \<le> length xs" "xs ! k = x0" "xs ! (k + 1) = x1" "xs ! (k + 2) = x2"
    "xs ! (k + 3) = x3"
proof -
  have "length (take 4 (drop k xs)) = 4" using assms by simp
  then show len: "k + 4 \<le> length xs" by simp
  have "take 4 (drop k xs) ! i = xs ! (k + i)" if "i < 4" for i
    using that len by simp
  from this [of 0] this [of 1] this [of 2] this [of 3]
  show "xs ! k = x0" "xs ! (k + 1) = x1" "xs ! (k + 2) = x2" "xs ! (k + 3) = x3"
    by (simp_all add: assms)
qed

lemma unat_byte_of_nat:
  "n < 256 \<Longrightarrow> unat (of_nat n :: byte) = n"
  by (simp add: unat_of_nat)

lemma unat_packed:
  assumes "c < 128" and "L < 2 ^ 24"
  shows "unat (of_nat (128 * of_bool isLast + c) :: byte) = 128 * of_bool isLast + c"
    and "unat (of_nat (L div 65536) :: byte) = L div 65536"
    and "unat (of_nat (L div 256 mod 256) :: byte) = L div 256 mod 256"
    and "unat (of_nat (L mod 256) :: byte) = L mod 256"
proof -
  have "128 * of_bool isLast + c < 256" using assms by (cases isLast) simp_all
  then show "unat (of_nat (128 * of_bool isLast + c) :: byte) = 128 * of_bool isLast + c"
    by (rule unat_byte_of_nat)
  have "L div 65536 < 256" using assms by simp
  then show "unat (of_nat (L div 65536) :: byte) = L div 65536"
    by (rule unat_byte_of_nat)
  show "unat (of_nat (L div 256 mod 256) :: byte) = L div 256 mod 256"
    by (rule unat_byte_of_nat) simp
  show "unat (of_nat (L mod 256) :: byte) = L mod 256"
    by (rule unat_byte_of_nat) simp
qed

lemma length_reassembled:
  "(L::nat) = L div 65536 * 65536 + L div 256 mod 256 * 256 + L mod 256"
proof -
  have h: "L div 65536 = L div 256 div 256" by (simp add: div_mult2_eq [symmetric])
  have a: "L = 256 * (L div 256) + L mod 256" by simp
  have b: "L div 256 = 256 * (L div 256 div 256) + L div 256 mod 256" by simp
  show ?thesis unfolding h using a b by linarith
qed

lemma ParseBlockHeader_packed:
  assumes c: "c < 128" and L: "L < 2 ^ 24"
    and bytes: "take 4 (drop (cursor s) (content s)) = packHeader isLast c L"
  shows "ParseBlockHeader s =
    (if c = 127 then (Inl ErrInvalidBlockType, s\<lparr>cursor := cursor s + 4\<rparr>, [])
     else (Inr \<lparr>IsLast = isLast,
                BlockType = (if c \<le> 6 then declaredTypes ! c else TypeReserved),
                Length = int L\<rparr>,
           s\<lparr>cursor := cursor s + 4\<rparr>,
           if 7 \<le> c then [reservedNotice (of_nat c)] else []))"
proof -
  note w = window_nth [OF bytes [unfolded packHeader_def]]
  have b0: "128 * of_bool isLast + c = unat (content s ! cursor s)"
    by (simp only: w(2) unat_packed(1) [OF c L])
  have len: "L = unat (content s ! (cursor s + 1)) * 65536
              + unat (content s ! (cursor s + 2)) * 256
              + unat (content s ! (cursor s + 3))"
    by (simp only: w(3,4,5) unat_packed(2,3,4) [OF c L]) (rule length_reassembled)
  have "(128 * of_bool isLast + c) mod 128 = c" "(128 \<le> 128 * of_bool isLast + c) = isLast"
    using c by (cases isLast; simp)+
  then show ?thesis
    using ParseBlockHeader_readable [OF w(1) b0 len] by simp
qed

lemma be24:
  fixes a b c :: nat
  assumes "a < 256" "b < 256" "c < 256"
  shows "(a * 65536 + b * 256 + c) div 65536 = a"
    and "(a * 65536 + b * 256 + c) div 256 mod 256 = b"
    and "(a * 65536 + b * 256 + c) mod 256 = c"
    and "a * 65536 + b * 256 + c < 2 ^ 24"
proof -
  have e: "a * 65536 + b * 256 + c = (a * 256 + b) * 256 + c" by simp
  have m: "(k * 256 + r) mod 256 = r" "(k * 256 + r) div 256 = k" if "r < 256" for k r :: nat
    using that by simp_all
  have d: "(a * 65536 + b * 256 + c) div 256 = a * 256 + b"
    by (subst e) (rule m(2) [OF assms(3)])
  show "(a * 65536 + b * 256 + c) div 256 mod 256 = b"
    by (subst d) (rule m(1) [OF assms(2)])
  show "(a * 65536 + b * 256 + c) mod 256 = c"
    by (subst e) (rule m(1) [OF assms(3)])
  have "(a * 65536 + b * 256 + c) div 65536 = (a * 65536 + b * 256 + c) div 256 div 256"
    by (simp add: div_mult2_eq [symmetric])
  also have "\<dots> = a"
    by (subst d) (rule m(2) [OF assms(2)])
  finally show "(a * 65536 + b * 256 + c) div 65536 = a" .
  show "a * 65536 + b * 256 + c < 2 ^ 24"
    using assms by simp
qed

lemma packHeader_covers:
  fixes b0 b1 b2 b3 :: byte
  shows "[b0, b1, b2, b3] =
     packHeader (128 \<le> unat b0) (unat b0 mod 128)
       (unat b1 * 65536 + unat b2 * 256 + unat b3)
     \<and> unat b0 mod 128 < 128 \<and> unat b1 * 65536 + unat b2 * 256 + unat b3 < 2 ^ 24"
proof -
  have byte_bound: "unat x < 256" for x :: byte
    using unsigned_less [of x, where ?'a = nat] by simp
  note bb = byte_bound [of b0] byte_bound [of b1] byte_bound [of b2] byte_bound [of b3]
  have "128 * of_bool (128 \<le> unat b0) + unat b0 mod 128 = unat b0"
    using bb(1) by (cases "128 \<le> unat b0") (auto simp: mod_if)
  with be24(4) [OF bb(2,3,4)] show ?thesis
    by (simp add: packHeader_def be24(1,2,3) [OF bb(2,3,4)] del: of_bool_eq_iff
        split del: split_of_bool)
qed

subsection \<open>Decoding a header\<close>

text \<open>
  Claim C1: when the next four bytes of the stream pack, most significant bit first, a
  flag, a type code \<open>c\<close> from 0 to 6 and a 24-bit length \<open>L\<close>, \<^verbatim>\<open>ParseBlockHeader\<close>
  succeeds; the header has \<^verbatim>\<open>IsLast\<close> equal to the flag, the block type the table gives
  for \<open>c\<close> and \<^verbatim>\<open>Length\<close> equal to \<open>L\<close>; the cursor has moved by exactly four bytes, so
  no byte of the body is consumed; nothing is logged.
\<close>

theorem ParseBlockHeader_known_type:
  assumes "c \<le> 6" and "L \<le> 16777215"
    and "take 4 (drop (cursor s) (content s)) = packHeader isLast c L"
  shows "ParseBlockHeader s =
    (Inr \<lparr>IsLast = isLast,
          BlockType = [TypeStreamInfo, TypePadding, TypeApplication, TypeSeekTable,
                       TypeVorbisComment, TypeCueSheet, TypePicture] ! c,
          Length = int L\<rparr>,
     s\<lparr>cursor := cursor s + 4\<rparr>, [])"
proof -
  have "c < 128" "L < 2 ^ 24" using assms(1,2) by simp_all
  from ParseBlockHeader_packed [OF this assms(3)] small_code_cases [OF assms(1)] assms(1)
  show ?thesis by (auto simp: declaredTypes_def)
qed

theorem ParseBlockHeader_known_type_witness:
  "(4::nat) \<le> 6 \<and> (66051::nat) \<le> 16777215
   \<and> take 4 (drop 0 [0x84, 1, 2, 3, 0xAA]) = packHeader True 4 66051
   \<and> ParseBlockHeader \<lparr>content = [0x84, 1, 2, 3, 0xAA], cursor = 0, at_end = EOF,
        seeker = False\<rparr> =
      (Inr \<lparr>IsLast = True, BlockType = TypeVorbisComment, Length = 66051\<rparr>,
       \<lparr>content = [0x84, 1, 2, 3, 0xAA], cursor = 4, at_end = EOF, seeker = False\<rparr>, [])"
  using ParseBlockHeader_known_type [of 4 66051
      "\<lparr>content = [0x84, 1, 2, 3, 0xAA], cursor = 0, at_end = EOF, seeker = False\<rparr>" True]
  by (simp add: packHeader_def)

text \<open>
  Claim C4: when the type code packed in the next four bytes is 127,
  \<^verbatim>\<open>ParseBlockHeader\<close> fails with the invalid-block-type error and returns no header,
  whatever the flag and the length are.
\<close>

theorem ParseBlockHeader_invalid_type:
  assumes "L \<le> 16777215"
    and "take 4 (drop (cursor s) (content s)) = packHeader isLast 127 L"
  shows "ParseBlockHeader s = (Inl ErrInvalidBlockType, s\<lparr>cursor := cursor s + 4\<rparr>, [])"
proof -
  have "(127::nat) < 128" "L < 2 ^ 24" using assms(1) by simp_all
  from ParseBlockHeader_packed [OF this assms(2)] show ?thesis by simp
qed

theorem ParseBlockHeader_invalid_type_witness:
  "(1::nat) \<le> 16777215
   \<and> take 4 (drop 0 [0xFF, 0, 0, 1, 0xAA]) = packHeader True 127 1
   \<and> ParseBlockHeader \<lparr>content = [0xFF, 0, 0, 1, 0xAA], cursor = 0, at_end = EOF,
        seeker = False\<rparr> =
      (Inl ErrInvalidBlockType,
       \<lparr>content = [0xFF, 0, 0, 1, 0xAA], cursor = 4, at_end = EOF, seeker = False\<rparr>, [])"
  using ParseBlockHeader_invalid_type [of 1
      "\<lparr>content = [0xFF, 0, 0, 1, 0xAA], cursor = 0, at_end = EOF, seeker = False\<rparr>" True]
  by (simp add: packHeader_def)

text \<open>
  Claim C5: when the type code \<open>c\<close> packed in the next four bytes is from 7 to 126,
  \<^verbatim>\<open>ParseBlockHeader\<close> succeeds with block type \<^verbatim>\<open>TypeReserved\<close>, and one line naming
  \<open>c\<close> in decimal is logged; decoding is not aborted.
\<close>

theorem ParseBlockHeader_reserved_type:
  assumes "7 \<le> c" and "c \<le> 126" and "L \<le> 16777215"
    and "take 4 (drop (cursor s) (content s)) = packHeader isLast c L"
  shows "ParseBlockHeader s =
    (Inr \<lparr>IsLast = isLast, BlockType = TypeReserved, Length = int L\<rparr>,
     s\<lparr>cursor := cursor s + 4\<rparr>,
     [''meta.ParseBlockHeader: reserved block type '' @ decimal c @ ''.'' @ [CHR 0x0A]])"
proof -
  have c: "c < 128" and "L < 2 ^ 24" using assms(2,3) by simp_all
  from ParseBlockHeader_packed [OF this assms(4)] assms(1,2)
  have "ParseBlockHeader s =
    (Inr \<lparr>IsLast = isLast, BlockType = TypeReserved, Length = int L\<rparr>,
     s\<lparr>cursor := cursor s + 4\<rparr>, [reservedNotice (of_nat c)])"
    by simp
  moreover have "unat (of_nat c :: byte) = c"
    using c by (intro unat_byte_of_nat) simp
  ultimately show ?thesis
    by (simp add: reservedNotice_def del: of_nat_unat)
qed

theorem ParseBlockHeader_reserved_type_witness:
  "(7::nat) \<le> 42 \<and> (42::nat) \<le> 126 \<and> (2::nat) \<le> 16777215
   \<and> take 4 (drop 0 [0x2A, 0, 0, 2, 0xAA, 0xBB]) = packHeader False 42 2
   \<and> ParseBlockHeader \<lparr>content = [0x2A, 0, 0, 2, 0xAA, 0xBB], cursor = 0, at_end = EOF,
        seeker = False\<rparr> =
      (Inr \<lparr>IsLast = False, BlockType = TypeReserved, Length = 2\<rparr>,
       \<lparr>content = [0x2A, 0, 0, 2, 0xAA, 0xBB], cursor = 4, at_end = EOF, seeker = False\<rparr>,
       [''meta.ParseBlockHeader: reserved block type 42.'' @ [CHR 0x0A]])"
  using ParseBlockHeader_reserved_type [of 42 2
      "\<lparr>content = [0x2A, 0, 0, 2, 0xAA, 0xBB], cursor = 0, at_end = EOF, seeker = False\<rparr>"
      False]
  by (simp add: packHeader_def decimal.simps digit_def)

subsection \<open>Headers stay in range and are not changed\<close>

text \<open>A field of \<open>k\<close> bits is below \<open>2^k\<close>, whatever the stream holds.\<close>

lemma acc_step_bound:
  fixes acc :: "64 word"
  shows "unat (2 * acc + of_bool b) + 1 \<le> 2 * (unat acc + 1)"
proof -
  have "unat (2 * acc + of_bool b) \<le> unat (2 * acc) + unat (of_bool b :: 64 word)"
    by (simp add: unat_word_ariths)
  moreover have "unat (2 * acc) \<le> 2 * unat acc"
    by (simp add: unat_word_ariths)
  moreover have "unat (of_bool b :: 64 word) \<le> 1"
    by (cases b) simp_all
  ultimately show ?thesis by simp
qed

lemma bit_Read_bound:
  "bit_Read k acc br = (Inr v, br') \<Longrightarrow> unat v < 2 ^ k * (unat acc + 1)"
proof (induction k arbitrary: acc br)
  case 0
  then show ?case by simp
next
  case (Suc k)
  from Suc.prems obtain b br1 where "bit_Read k (2 * acc + of_bool b) br1 = (Inr v, br')"
    by (auto split: list.splits prod.splits option.splits)
  then have "unat v < 2 ^ k * (unat (2 * acc + of_bool b) + 1)"
    by (rule Suc.IH)
  also have "\<dots> \<le> 2 ^ k * (2 * (unat acc + 1))"
    using acc_step_bound [of acc b] by (intro mult_le_mono2)
  finally show ?case by simp
qed

lemma ReadFields_three:
  assumes "bit_ReadFields [a, b, c] br = (Inr flds, br')"
  shows "\<exists>v0 v1 v2 br1 br2. flds = [v0, v1, v2] \<and> bit_Read a 0 br = (Inr v0, br1)
     \<and> bit_Read b 0 br1 = (Inr v1, br2) \<and> bit_Read c 0 br2 = (Inr v2, br')"
  using assms by (auto split: prod.splits sum.splits)

lemma sint_small:
  fixes v :: "64 word"
  assumes "unat v < 2 ^ 24"
  shows "sint v = int (unat v)"
proof -
  have "int (unat v) < int (2 ^ 24)" using assms by (simp only: of_nat_less_iff)
  then have "uint v < 2 ^ 24" by simp
  then have hi: "uint v < 2 ^ 63" by simp
  have "- (2 ^ 63) \<le> (0::int)" by simp
  also have "0 \<le> uint v" by simp
  finally have "signed_take_bit 63 (uint v) = uint v"
    using hi by (rule signed_take_bit_int_eq_self)
  then show ?thesis by (simp add: sint_uint)
qed

lemma ParseBlockHeader_Length:
  assumes "ParseBlockHeader s = (Inr h, s', notices)"
  shows "0 \<le> Length h \<and> Length h \<le> 16777215"
proof -
  from assms obtain flds br
    where rf: "bit_ReadFields [1, 7, 24] (bit_NewReader s) = (Inr flds, br)"
      and len: "Length h = sint (flds ! 2)"
    by (auto simp: ParseBlockHeader_def Let_def split: prod.splits sum.splits if_splits)
  from ReadFields_three [OF rf] obtain v0 v1 v2 br2
    where flds: "flds = [v0, v1, v2]" and v2: "bit_Read 24 0 br2 = (Inr v2, br)"
    by blast
  from bit_Read_bound [OF v2] have b: "unat v2 < 2 ^ 24" by simp
  then have "sint v2 = int (unat v2)" by (rule sint_small)
  with b show ?thesis by (simp add: len flds del: of_nat_unat)
qed

lemma Parse_Header:
  "Header (snd (Parse ds block)) = Header block"
  by (simp add: Parse_def typedBody_def Let_def split: branch.splits prod.splits)

lemma Skip_Header:
  "Header (snd (Skip block)) = Header block"
  by (simp add: Skip_def split: prod.splits)

text \<open>
  Claim C9: every header \<^verbatim>\<open>ParseBlockHeader\<close> returns has a length from 0 to
  16,777,215, on any stream; and neither \<^verbatim>\<open>Block.Parse\<close> nor \<^verbatim>\<open>Block.Skip\<close> changes the
  header of the block it is called on, whatever the body decoders do and whether the
  call fails or not.
\<close>

theorem BlockHeader_range_and_unchanged:
  "(ParseBlockHeader s = (Inr h, s', notices) \<longrightarrow> 0 \<le> Length h \<and> Length h \<le> 16777215)
   \<and> Header (snd (Parse ds block)) = Header block
   \<and> Header (snd (Skip block)) = Header block"
  using ParseBlockHeader_Length [of s h s' notices] Parse_Header [of ds block]
    Skip_Header [of block]
  by blast

theorem BlockHeader_range_and_unchanged_witness:
  "ParseBlockHeader \<lparr>content = [0, 0xFF, 0xFF, 0xFF], cursor = 0, at_end = EOF,
        seeker = True\<rparr> =
     (Inr \<lparr>IsLast = False, BlockType = TypeStreamInfo, Length = 16777215\<rparr>,
      \<lparr>content = [0, 0xFF, 0xFF, 0xFF], cursor = 4, at_end = EOF, seeker = True\<rparr>, [])
   \<and> (0::int) \<le> Length \<lparr>IsLast = False, BlockType = TypeStreamInfo, Length = 16777215\<rparr>
   \<and> Length \<lparr>IsLast = False, BlockType = TypeStreamInfo, Length = 16777215\<rparr> \<le> 16777215"
proof -
  have "ParseBlockHeader \<lparr>content = [0, 0xFF, 0xFF, 0xFF], cursor = 0, at_end = EOF,
        seeker = True\<rparr> =
     (Inr \<lparr>IsLast = False, BlockType = TypeStreamInfo, Length = 16777215\<rparr>,
      \<lparr>content = [0, 0xFF, 0xFF, 0xFF], cursor = 4, at_end = EOF, seeker = True\<rparr>, [])"
    using ParseBlockHeader_packed [of 0 16777215
        "\<lparr>content = [0, 0xFF, 0xFF, 0xFF], cursor = 0, at_end = EOF, seeker = True\<rparr>" False]
    by (simp add: packHeader_def declaredTypes_def)
  with BlockHeader_range_and_unchanged [of
      "\<lparr>content = [0, 0xFF, 0xFF, 0xFF], cursor = 0, at_end = EOF, seeker = True\<rparr>"
      "\<lparr>IsLast = False, BlockType = TypeStreamInfo, Length = 16777215\<rparr>"
      "\<lparr>content = [0, 0xFF, 0xFF, 0xFF], cursor = 4, at_end = EOF, seeker = True\<rparr>" "[]"]
  show ?thesis by simp
qed

subsection \<open>The dispatch of \<^verbatim>\<open>Block.Parse\<close>\<close>

lemma ParseBlockHeader_type_declared:
  assumes "ParseBlockHeader s = (Inr h, s', notices)"
  shows "BlockType h \<in> set declaredTypes"
  using assms
  by (auto simp: ParseBlockHeader_def declaredTypes_def Let_def
      split: prod.splits sum.splits if_splits)

lemma dispatch_declared:
  "map dispatch declaredTypes =
     [CaseStreamInfo, CasePadding, CaseApplication, CaseSeekTable, CaseVorbisComment,
      CaseCueSheet, CasePicture, CaseReserved]"
  by (simp add: dispatch_def declaredTypes_def Type_defs)

lemma dispatch_default_iff:
  "(dispatch t = CaseDefault) = (t \<notin> set declaredTypes)"
  by (simp add: dispatch_def declaredTypes_def)

lemma Parse_default:
  "dispatch (BlockType (Header block)) = CaseDefault \<Longrightarrow>
   Parse ds block = (Some (ErrNotSupported (BlockType (Header block))), block)"
  by (simp add: Parse_def Let_def)

text \<open>
  Claim C7: the eight declared block types select eight different branches of the
  \<^verbatim>\<open>switch\<close> in \<^verbatim>\<open>Block.Parse\<close>, each its own; none of them selects the \<^verbatim>\<open>default\<close>
  branch, which is selected exactly by the values that are not declared; and a block
  made by \<^verbatim>\<open>NewBlock\<close>, whose header comes from \<^verbatim>\<open>ParseBlockHeader\<close>, never selects
  the \<^verbatim>\<open>default\<close> branch.
\<close>

theorem dispatch_exhaustive:
  "map dispatch declaredTypes =
     [CaseStreamInfo, CasePadding, CaseApplication, CaseSeekTable, CaseVorbisComment,
      CaseCueSheet, CasePicture, CaseReserved]
   \<and> distinct (map dispatch declaredTypes)
   \<and> CaseDefault \<notin> set (map dispatch declaredTypes)
   \<and> (dispatch t = CaseDefault) = (t \<notin> set declaredTypes)
   \<and> (NewBlock s = (Inr block, s', notices) \<longrightarrow>
        dispatch (BlockType (Header block)) \<noteq> CaseDefault)"
proof -
  have "dispatch (BlockType (Header block)) \<noteq> CaseDefault"
    if "NewBlock s = (Inr block, s', notices)"
  proof -
    from that obtain h where "ParseBlockHeader s = (Inr h, s', notices)" "Header block = h"
      by (auto simp: NewBlock_def split: prod.splits sum.splits)
    then show ?thesis
      using ParseBlockHeader_type_declared by (simp add: dispatch_default_iff)
  qed
  then show ?thesis
    by (simp add: dispatch_declared dispatch_default_iff)
qed

theorem dispatch_exhaustive_witness:
  "NewBlock \<lparr>content = [0x2A, 0, 0, 2, 0xAA, 0xBB], cursor = 0, at_end = EOF,
        seeker = False\<rparr> =
     (Inr \<lparr>reader = \<lparr>content = [0x2A, 0, 0, 2, 0xAA, 0xBB], cursor = 4, at_end = EOF,
                       seeker = False\<rparr>,
           Header = \<lparr>IsLast = False, BlockType = TypeReserved, Length = 2\<rparr>,
           Body = (NoBody :: unit body)\<rparr>,
      \<lparr>content = [0x2A, 0, 0, 2, 0xAA, 0xBB], cursor = 4, at_end = EOF, seeker = False\<rparr>,
      [reservedNotice 42])
   \<and> dispatch TypeReserved = CaseReserved \<and> CaseReserved \<noteq> CaseDefault"
proof -
  have "NewBlock \<lparr>content = [0x2A, 0, 0, 2, 0xAA, 0xBB], cursor = 0, at_end = EOF,
        seeker = False\<rparr> =
     (Inr \<lparr>reader = \<lparr>content = [0x2A, 0, 0, 2, 0xAA, 0xBB], cursor = 4, at_end = EOF,
                       seeker = False\<rparr>,
           Header = \<lparr>IsLast = False, BlockType = TypeReserved, Length = 2\<rparr>,
           Body = (NoBody :: unit body)\<rparr>,
      \<lparr>content = [0x2A, 0, 0, 2, 0xAA, 0xBB], cursor = 4, at_end = EOF, seeker = False\<rparr>,
      [reservedNotice 42])"
    using ParseBlockHeader_packed [of 42 2
        "\<lparr>content = [0x2A, 0, 0, 2, 0xAA, 0xBB], cursor = 0, at_end = EOF, seeker = False\<rparr>"
        False]
    by (simp add: NewBlock_def packHeader_def)
  with dispatch_exhaustive [of TypeReserved
      "\<lparr>content = [0x2A, 0, 0, 2, 0xAA, 0xBB], cursor = 0, at_end = EOF, seeker = False\<rparr>"
      "\<lparr>reader = \<lparr>content = [0x2A, 0, 0, 2, 0xAA, 0xBB], cursor = 4, at_end = EOF,
                       seeker = False\<rparr>,
         Header = \<lparr>IsLast = False, BlockType = TypeReserved, Length = 2\<rparr>,
         Body = (NoBody :: unit body)\<rparr>"
      "\<lparr>content = [0x2A, 0, 0, 2, 0xAA, 0xBB], cursor = 4, at_end = EOF, seeker = False\<rparr>"
      "[reservedNotice 42]"]
  show ?thesis by (simp add: dispatch_def Type_defs)
qed

subsection \<open>\<^verbatim>\<open>Block.Parse\<close> stays inside the body\<close>

lemma advanced_refl: "advanced l l"
  by (simp add: advanced_def)

lemma advanced_trans: "advanced l l' \<Longrightarrow> advanced l' l'' \<Longrightarrow> advanced l l''"
  by (auto simp: advanced_def)

lemma LimitedReader_Read_advanced:
  "LimitedReader_Read n l = (res, l') \<Longrightarrow> advanced l l'"
  by (auto simp: LimitedReader_Read_def stream_Read_def advanced_def Let_def
      split: if_splits)

lemma decode_advanced:
  "decode p l = (a, l') \<Longrightarrow> advanced l l'"
proof (induction p arbitrary: l)
  case (Result x)
  then show ?case by (simp add: advanced_refl)
next
  case (ReadThen n k)
  obtain res l1 where r: "LimitedReader_Read n l = (res, l1)"
    by (cases "LimitedReader_Read n l")
  with ReadThen.prems have "decode (k res) l1 = (a, l')" by simp
  then have "advanced l1 l'" by (rule ReadThen.IH [OF rangeI])
  with LimitedReader_Read_advanced [OF r] show ?case by (rule advanced_trans)
qed

lemma ioutil_ReadAll_advanced:
  "ioutil_ReadAll l buf = (res, l') \<Longrightarrow> advanced l l'"
proof (induction l buf rule: ioutil_ReadAll.induct)
  case (1 l buf)
  obtain bs e l1 where r: "LimitedReader_Read 512 l = ((bs, e), l1)"
    by (metis surj_pair)
  note step = LimitedReader_Read_advanced [OF r]
  show ?case
  proof (cases e)
    case None
    with r "1.prems" have "ioutil_ReadAll l1 (buf @ bs) = (res, l')"
      by (simp add: ioutil_ReadAll.simps [of l buf])
    then have "advanced l1 l'"
      using "1.IH" r None by simp
    with step show ?thesis by (rule advanced_trans)
  next
    case (Some x)
    with r "1.prems" have "l' = l1"
      by (simp add: ioutil_ReadAll.simps [of l buf])
    with step show ?thesis by simp
  qed
qed

lemma Parse_reader:
  assumes "Parse ds block = (err, block')"
  shows "\<exists>l'. advanced (io_LimitReader (reader block) (Length (Header block))) l'
            \<and> reader block' = lr_R l'"
proof (cases "dispatch (BlockType (Header block))")
  case CaseDefault
  with assms have "block' = block" by (simp add: Parse_def Let_def)
  then have "reader block' = lr_R (io_LimitReader (reader block) (Length (Header block)))"
    by (simp add: io_LimitReader_def)
  then show ?thesis using advanced_refl by blast
next
  case CaseReserved
  with assms show ?thesis
    by (auto simp: Parse_def Let_def split: prod.splits dest: ioutil_ReadAll_advanced)
qed (use assms in \<open>auto simp: Parse_def typedBody_def Let_def split: prod.splits
      dest: decode_advanced\<close>)

lemma Parse_bounded:
  assumes "Parse ds block = (err, block')"
  shows "content (reader block') = content (reader block)
     \<and> cursor (reader block) \<le> cursor (reader block')
     \<and> int (cursor (reader block')) \<le> int (cursor (reader block)) + max 0 (Length (Header block))"
proof -
  from Parse_reader [OF assms] obtain l'
    where "advanced (io_LimitReader (reader block) (Length (Header block))) l'"
      and "reader block' = lr_R l'"
    by blast
  then show ?thesis
    by (auto simp: advanced_def io_LimitReader_def)
qed

lemma LimitedReader_Read_exhausted:
  "lr_N l \<le> 0 \<Longrightarrow> LimitedReader_Read n l = (([], Some EOF), l)"
  by (simp add: LimitedReader_Read_def)

lemma LimitedReader_Read_delivers:
  assumes "LimitedReader_Read n l = ((bs, e), l')"
  shows "int (length bs) \<le> max 0 (lr_N l) \<and> lr_N l' = lr_N l - int (length bs)
     \<and> cursor (lr_R l') = cursor (lr_R l) + length bs
     \<and> bs = take (length bs) (drop (cursor (lr_R l)) (content (lr_R l)))"
  using assms
  by (auto simp: LimitedReader_Read_def stream_Read_def Let_def min_def split: if_splits)

text \<open>
  Claim C2: for every block, whatever its type and its length, and whatever the body
  decoders do with the reader they are handed, \<^verbatim>\<open>Block.Parse\<close> leaves the backing
  store as it was and moves the cursor forward by at most the length of the header
  (by nothing when the length is negative). A read on a bounded view whose bound is
  used up returns no byte and \<open>EOF\<close> and does not touch the stream; any read on a
  bounded view delivers bytes of the stream from the cursor on, no more than the bound
  allows, and lowers the bound by as many: a decoder that reads on sees a short read,
  then \<open>EOF\<close>, never a byte of the next block.
\<close>

theorem Parse_within_body:
  "(Parse ds block = (err, block') \<longrightarrow>
      content (reader block') = content (reader block)
      \<and> cursor (reader block) \<le> cursor (reader block')
      \<and> int (cursor (reader block'))
          \<le> int (cursor (reader block)) + max 0 (Length (Header block)))
   \<and> (lr_N l \<le> 0 \<longrightarrow> LimitedReader_Read n l = (([], Some EOF), l))
   \<and> (LimitedReader_Read n l = ((bs, e), l') \<longrightarrow>
      int (length bs) \<le> max 0 (lr_N l) \<and> lr_N l' = lr_N l - int (length bs)
      \<and> cursor (lr_R l') = cursor (lr_R l) + length bs
      \<and> bs = take (length bs) (drop (cursor (lr_R l)) (content (lr_R l))))"
  using Parse_bounded [of ds block err block'] LimitedReader_Read_exhausted [of l n]
    LimitedReader_Read_delivers [of n l bs e l']
  by blast

theorem Parse_within_body_witness:
  "Parse greedyDecoders
     \<lparr>reader = \<lparr>content = [0, 0, 0, 2, 0xAA, 0xBB, 0x81, 0, 0, 0], cursor = 4,
                 at_end = EOF, seeker = False\<rparr>,
      Header = \<lparr>IsLast = False, BlockType = TypeStreamInfo, Length = 2\<rparr>,
      Body = NoBody\<rparr> =
     (Some (IO EOF),
      \<lparr>reader = \<lparr>content = [0, 0, 0, 2, 0xAA, 0xBB, 0x81, 0, 0, 0], cursor = 6,
                  at_end = EOF, seeker = False\<rparr>,
       Header = \<lparr>IsLast = False, BlockType = TypeStreamInfo, Length = 2\<rparr>,
       Body = Typed [0xAA, 0xBB]\<rparr>)
   \<and> (6::int) \<le> 4 + max 0 2
   \<and> LimitedReader_Read 100
        \<lparr>lr_R = \<lparr>content = [0, 0, 0, 2, 0xAA, 0xBB, 0x81, 0, 0, 0], cursor = 4,
                  at_end = EOF, seeker = False\<rparr>, lr_N = 2\<rparr> =
       (([0xAA, 0xBB], None),
        \<lparr>lr_R = \<lparr>content = [0, 0, 0, 2, 0xAA, 0xBB, 0x81, 0, 0, 0], cursor = 6,
                  at_end = EOF, seeker = False\<rparr>, lr_N = 0\<rparr>)
   \<and> LimitedReader_Read 100
        \<lparr>lr_R = \<lparr>content = [0, 0, 0, 2, 0xAA, 0xBB, 0x81, 0, 0, 0], cursor = 6,
                  at_end = EOF, seeker = False\<rparr>, lr_N = 0\<rparr> =
       (([], Some EOF),
        \<lparr>lr_R = \<lparr>content = [0, 0, 0, 2, 0xAA, 0xBB, 0x81, 0, 0, 0], cursor = 6,
                  at_end = EOF, seeker = False\<rparr>, lr_N = 0\<rparr>)"
proof -
  let ?c = "[0, 0, 0, 2, 0xAA, 0xBB, 0x81, 0, 0, 0] :: byte list"
  let ?s4 = "\<lparr>content = ?c, cursor = 4, at_end = EOF, seeker = False\<rparr>"
  let ?s6 = "\<lparr>content = ?c, cursor = 6, at_end = EOF, seeker = False\<rparr>"
  let ?h = "\<lparr>IsLast = False, BlockType = TypeStreamInfo, Length = 2\<rparr>"
  have r1: "LimitedReader_Read 100 \<lparr>lr_R = ?s4, lr_N = 2\<rparr> =
      (([0xAA, 0xBB], None), \<lparr>lr_R = ?s6, lr_N = 0\<rparr>)"
    by (simp add: LimitedReader_Read_def stream_Read_def)
  have r2: "LimitedReader_Read 100 \<lparr>lr_R = ?s6, lr_N = 0\<rparr> =
      (([], Some EOF), \<lparr>lr_R = ?s6, lr_N = 0\<rparr>)"
    by (simp add: LimitedReader_Read_def)
  have p: "Parse greedyDecoders \<lparr>reader = ?s4, Header = ?h, Body = NoBody\<rparr> =
      (Some (IO EOF), \<lparr>reader = ?s6, Header = ?h, Body = Typed [0xAA, 0xBB]\<rparr>)"
    by (simp add: Parse_def dispatch_def typedBody_def greedyDecoders_def greedyDecoder_def
        io_LimitReader_def r1 r2)
  from p r1 r2
    Parse_within_body [of greedyDecoders "\<lparr>reader = ?s4, Header = ?h, Body = NoBody\<rparr>"
      "Some (IO EOF)" "\<lparr>reader = ?s6, Header = ?h, Body = Typed [0xAA, 0xBB]\<rparr>"
      "\<lparr>lr_R = ?s6, lr_N = 0\<rparr>" 100 "[]" "Some EOF" "\<lparr>lr_R = ?s6, lr_N = 0\<rparr>"]
  show ?thesis by simp
qed

subsection \<open>\<^verbatim>\<open>Block.Skip\<close>\<close>




lemma io_Copy_Discard_negative:
  assumes "lr_N l \<le> 0"
  shows "io_Copy_Discard l w = ((w, None), l)"
  using assms by (simp add: io_Copy_Discard.simps [of l w] LimitedReader_Read_def)













end
